theory Spec2Isabelle
  imports Main
begin

section \<open>The registry monitor (monitor.go)\<close>

text \<open>
  The monitor is one Go file. Its probe loop talks to a container runtime through the
  client library and keeps two package-level flags, four metrics and two loop variables.
  The client library, the process environment and the clock are outside the repository:
  the runtime is a parameter of the model, a record of operations over an arbitrary world
  type \<open>'w\<close>, each returning the library's answer and the next world. A Go \<open>error\<close>
  result is an \<open>error option\<close> (\<open>None\<close> is \<open>nil\<close>); a result with an error is
  a sum with the error on the left.
\<close>

subsection \<open>Data\<close>

datatype error = Error string

record APIContainers =
  container_ID :: string
  container_Names :: "string list"

record APIImages =
  image_ID :: string

record ImageHistory =
  history_ID :: string
  history_Tags :: "string list"

text \<open>The calls the monitor makes to the outside, in the order of their first use.\<close>

datatype api =
    UrlParse | NewClient | BuildTLSTransport | Ping
  | ListContainers | RemoveContainer string
  | ListImages | RemoveImage string
  | PullImage | GetImageHistory
  | CreateContainer | CommitContainer
  | PushImage

text \<open>
  What an observer of the process sees: a sleep of the loop (nanoseconds, as
  \<open>time.Duration\<close> counts) and a call with whether it returned without error.
\<close>

datatype event = Slept int | Called api bool

record 'w docker =
  url_Parse :: "string \<Rightarrow> 'w \<Rightarrow> error option \<times> 'w"
  docker_NewClient :: "'w \<Rightarrow> error option \<times> 'w"
  buildTLSTransport :: "string \<Rightarrow> 'w \<Rightarrow> error option \<times> 'w"
  client_Ping :: "'w \<Rightarrow> error option \<times> 'w"
  client_ListContainers :: "'w \<Rightarrow> (error + APIContainers list) \<times> 'w"
  client_RemoveContainer :: "string \<Rightarrow> 'w \<Rightarrow> error option \<times> 'w"
  client_ListImages :: "'w \<Rightarrow> (error + APIImages list) \<times> 'w"
  client_RemoveImage :: "string \<Rightarrow> 'w \<Rightarrow> error option \<times> 'w"
  client_PullImage :: "'w \<Rightarrow> error option \<times> 'w"
  client_ImageHistory :: "'w \<Rightarrow> (error + ImageHistory list) \<times> 'w"
  client_CreateContainer :: "'w \<Rightarrow> error option \<times> 'w"
  client_CommitContainer :: "'w \<Rightarrow> error option \<times> 'w"
  client_PushImage :: "'w \<Rightarrow> error option \<times> 'w"

text \<open>The environment variables the loop reads (\<open>os.Getenv\<close>; unset reads as empty).\<close>

record environ =
  DOCKER_HOST :: string
  DOCKER_CERT_PATH :: string
  UNDER_DOCKER :: string

text \<open>
  The package-level variables \<open>healthy\<close> and \<open>status\<close>, the four metrics (a counter
  is its count, a summary is the number of its observations: the observed value is a
  floating-point wall-clock difference), the loop's locals \<open>firstLoop\<close> and
  \<open>duration\<close>, the events so far, and the world of the runtime.
\<close>

record 'w state =
  healthy :: bool
  status :: bool
  promSuccessMetric :: nat
  promFailureMetric :: nat
  promPullMetric :: nat
  promPushMetric :: nat
  firstLoop :: bool
  duration :: int
  trace :: "event list"
  world :: 'w

definition time_Second :: int where
  "time_Second = 1000000000"

definition time_Minute :: int where
  "time_Minute = 60 * time_Second"

text \<open>
  Process start: \<open>var ( healthy bool; status bool )\<close> has no initialiser, so both
  hold Go's zero value; \<open>runMonitor\<close> sets \<open>firstLoop := true\<close> and the loop
  starts with \<open>duration := 2 * time.Minute\<close>.
\<close>

definition initial :: "'w \<Rightarrow> 'w state" where
  "initial w = \<lparr> healthy = False, status = False,
                 promSuccessMetric = 0, promFailureMetric = 0,
                 promPullMetric = 0, promPushMetric = 0,
                 firstLoop = True, duration = 2 * time_Minute,
                 trace = [], world = w \<rparr>"

subsection \<open>Helpers\<close>

text \<open>
  \<open>strings.ToLower\<close>, on the ASCII letters: the only use compares the result with
  \<open>"true"\<close>, and no other rune lowers to one of its letters.
\<close>

definition toLower_char :: "char \<Rightarrow> char" where
  "toLower_char c =
     (case map_of (zip ''ABCDEFGHIJKLMNOPQRSTUVWXYZ'' ''abcdefghijklmnopqrstuvwxyz'') c of
        Some l \<Rightarrow> l
      | None \<Rightarrow> c)"

definition strings_ToLower :: "string \<Rightarrow> string" where
  "strings_ToLower s = map toLower_char s"

definition underDocker :: "environ \<Rightarrow> bool" where
  "underDocker env = (strings_ToLower (UNDER_DOCKER env) = ''true'')"

fun stringInSlice :: "string \<Rightarrow> string list \<Rightarrow> bool" where
  "stringInSlice v [] = False"
| "stringInSlice v (current # list) = (if current = v then True else stringInSlice v list)"

text \<open>One call to the outside: the world moves on and the call is recorded.\<close>

definition called :: "api \<Rightarrow> bool \<Rightarrow> 'w \<Rightarrow> 'w state \<Rightarrow> 'w state" where
  "called a ok w s = s\<lparr> trace := trace s @ [Called a ok], world := w \<rparr>"

subsection \<open>The HTTP handlers\<close>

text \<open>The status code (200 unless \<open>WriteHeader\<close> is called) and the body.\<close>

definition healthHandler :: "'w state \<Rightarrow> nat \<times> string" where
  "healthHandler s =
     (if \<not> healthy s then 503 else 200, if healthy s then ''true'' else ''false'')"

definition statusHandler :: "'w state \<Rightarrow> nat \<times> string" where
  "statusHandler s =
     (if \<not> status s then 400 else 200, if status s then ''true'' else ''false'')"

subsection \<open>The pipeline steps\<close>

definition newDockerClient :: "'w docker \<Rightarrow> environ \<Rightarrow> string \<Rightarrow> 'w state \<Rightarrow> bool \<times> 'w state" where
  "newDockerClient d env dockerHost s =
     (case url_Parse d dockerHost (world s) of
        (Some e, w) \<Rightarrow> (False, called UrlParse False w s)
      | (None, w) \<Rightarrow>
          (let s1 = called UrlParse True w s in
           case docker_NewClient d (world s1) of
             (Some e, w1) \<Rightarrow> (False, called NewClient False w1 s1)
           | (None, w1) \<Rightarrow>
               (let s2 = called NewClient True w1 s1 in
                if DOCKER_CERT_PATH env \<noteq> ''''
                then (case buildTLSTransport d (DOCKER_CERT_PATH env) (world s2) of
                        (Some e, w2) \<Rightarrow> (False, called BuildTLSTransport False w2 s2)
                      | (None, w2) \<Rightarrow> (True, called BuildTLSTransport True w2 s2))
                else (True, s2))))"

definition verifyDockerClient :: "'w docker \<Rightarrow> 'w state \<Rightarrow> bool \<times> 'w state" where
  "verifyDockerClient d s =
     (case client_Ping d (world s) of
        (Some e, w) \<Rightarrow> (False, (called Ping False w s)\<lparr> healthy := False \<rparr>)
      | (None, w) \<Rightarrow> (True, called Ping True w s))"

text \<open>The loop of \<open>clearAllContainers\<close> over the listed containers.\<close>

fun removeContainers :: "'w docker \<Rightarrow> APIContainers list \<Rightarrow> 'w state \<Rightarrow> bool \<times> 'w state" where
  "removeContainers d [] s = (healthy s, s)"
| "removeContainers d (container # rest) s =
     (if stringInSlice ''monitor'' (container_Names container) then removeContainers d rest s
      else (case client_RemoveContainer d (container_ID container) (world s) of
              (Some e, w) \<Rightarrow>
                (False, (called (RemoveContainer (container_ID container)) False w s)
                          \<lparr> healthy := False \<rparr>)
            | (None, w) \<Rightarrow>
                removeContainers d rest (called (RemoveContainer (container_ID container)) True w s)))"

definition clearAllContainers :: "'w docker \<Rightarrow> 'w state \<Rightarrow> bool \<times> 'w state" where
  "clearAllContainers d s =
     (case client_ListContainers d (world s) of
        (Inl e, w) \<Rightarrow> (False, (called ListContainers False w s)\<lparr> healthy := False \<rparr>)
      | (Inr containers, w) \<Rightarrow> removeContainers d containers (called ListContainers True w s))"

text \<open>
  The inner loop of \<open>clearAllImages\<close>, \<open>for _, image := range images[:1]\<close>, over the
  images it is given. \<open>Inl b\<close>: the function returned \<open>b\<close> from inside the loop;
  \<open>Inr removedImages\<close>: the loop ran to its end. The skip set is the Go map
  \<open>skipImages\<close>; only the presence of a key is read.
\<close>

fun removeImages ::
  "'w docker \<Rightarrow> environ \<Rightarrow> APIImages list \<Rightarrow> bool \<Rightarrow> (string \<rightharpoonup> bool) \<Rightarrow> 'w state
     \<Rightarrow> (bool + bool) \<times> (string \<rightharpoonup> bool) \<times> 'w state" where
  "removeImages d env [] removedImages skipImages s = (Inr removedImages, skipImages, s)"
| "removeImages d env (img # rest) removedImages skipImages s =
     (if skipImages (image_ID img) \<noteq> None then removeImages d env rest removedImages skipImages s
      else (case client_RemoveImage d (image_ID img) (world s) of
              (Some e, w) \<Rightarrow>
                (if \<not> underDocker env
                 then (Inl False, skipImages,
                       (called (RemoveImage (image_ID img)) False w s)\<lparr> healthy := False \<rparr>)
                 else removeImages d env rest removedImages
                        (skipImages(image_ID img \<mapsto> True))
                        (called (RemoveImage (image_ID img)) False w s))
            | (None, w) \<Rightarrow>
                removeImages d env rest True skipImages
                  (called (RemoveImage (image_ID img)) True w s)))"

text \<open>
  The outer \<open>for { ... }\<close> of \<open>clearAllImages\<close>. Nothing in the code bounds the number
  of passes, so the model counts them: with no pass left the answer is \<open>None\<close> and the
  state is the one at the top of the next pass. \<open>images[:1]\<close> is reached only with a
  non-empty list (an image outside the skip set was found), where it is \<open>take 1\<close>.
\<close>

fun clearAllImages_loop ::
  "'w docker \<Rightarrow> environ \<Rightarrow> nat \<Rightarrow> (string \<rightharpoonup> bool) \<Rightarrow> 'w state
     \<Rightarrow> bool option \<times> (string \<rightharpoonup> bool) \<times> 'w state" where
  "clearAllImages_loop d env 0 skipImages s = (None, skipImages, s)"
| "clearAllImages_loop d env (Suc n) skipImages s =
     (case client_ListImages d (world s) of
        (Inl e, w) \<Rightarrow> (Some False, skipImages, (called ListImages False w s)\<lparr> healthy := False \<rparr>)
      | (Inr images, w) \<Rightarrow>
          (let s1 = called ListImages True w s;
               imagesFound = list_ex (\<lambda>img. skipImages (image_ID img) = None) images
           in if \<not> imagesFound then (Some (healthy s1), skipImages, s1)
              else (case removeImages d env (take 1 images) False skipImages s1 of
                      (Inl b, skipImages', s2) \<Rightarrow> (Some b, skipImages', s2)
                    | (Inr removedImages, skipImages', s2) \<Rightarrow>
                        (if \<not> removedImages then (Some True, skipImages', s2)
                         else clearAllImages_loop d env n skipImages' s2))))"

text \<open>\<open>clearAllImages\<close> starts every run with \<open>skipImages := map[string]bool{}\<close>.\<close>

definition clearAllImages ::
  "'w docker \<Rightarrow> environ \<Rightarrow> nat \<Rightarrow> 'w state \<Rightarrow> bool option \<times> (string \<rightharpoonup> bool) \<times> 'w state" where
  "clearAllImages d env fuel s = clearAllImages_loop d env fuel Map.empty s"

definition pullTestImage :: "'w docker \<Rightarrow> 'w state \<Rightarrow> bool \<times> 'w state" where
  "pullTestImage d s =
     (case client_PullImage d (world s) of
        (Some e, w) \<Rightarrow> (False, (called PullImage False w s)\<lparr> status := False \<rparr>)
      | (None, w) \<Rightarrow> (True, called PullImage True w s))"

text \<open>The loop of \<open>deleteTopLayer\<close> over the history; \<open>break\<close> leaves it after the removal.\<close>

fun deleteLatest :: "'w docker \<Rightarrow> ImageHistory list \<Rightarrow> 'w state \<Rightarrow> bool \<times> 'w state" where
  "deleteLatest d [] s = (healthy s, s)"
| "deleteLatest d (img # rest) s =
     (if stringInSlice ''latest'' (history_Tags img)
      then (case client_RemoveImage d (history_ID img) (world s) of
              (Some e, w) \<Rightarrow>
                (False, (called (RemoveImage (history_ID img)) False w s)\<lparr> healthy := False \<rparr>)
            | (None, w) \<Rightarrow>
                (let s1 = called (RemoveImage (history_ID img)) True w s in (healthy s1, s1)))
      else deleteLatest d rest s)"

definition deleteTopLayer :: "'w docker \<Rightarrow> 'w state \<Rightarrow> bool \<times> 'w state" where
  "deleteTopLayer d s =
     (case client_ImageHistory d (world s) of
        (Inl e, w) \<Rightarrow> (False, (called GetImageHistory False w s)\<lparr> healthy := False \<rparr>)
      | (Inr imageHistory, w) \<Rightarrow> deleteLatest d imageHistory (called GetImageHistory True w s))"

definition createTagLayer :: "'w docker \<Rightarrow> 'w state \<Rightarrow> bool \<times> 'w state" where
  "createTagLayer d s =
     (case client_CreateContainer d (world s) of
        (Some e, w) \<Rightarrow> (False, (called CreateContainer False w s)\<lparr> healthy := False \<rparr>)
      | (None, w) \<Rightarrow>
          (let s1 = called CreateContainer True w s in
           case client_CommitContainer d (world s1) of
             (Some e, w1) \<Rightarrow> (False, (called CommitContainer False w1 s1)\<lparr> healthy := False \<rparr>)
           | (None, w1) \<Rightarrow>
               (let s2 = called CommitContainer True w1 s1 in (healthy s2, s2))))"

definition pushTestImage :: "'w docker \<Rightarrow> 'w state \<Rightarrow> bool \<times> 'w state" where
  "pushTestImage d s =
     (case client_PushImage d (world s) of
        (Some e, w) \<Rightarrow> (False, (called PushImage False w s)\<lparr> status := False \<rparr>)
      | (None, w) \<Rightarrow> (True, (called PushImage True w s)\<lparr> status := True \<rparr>))"

subsection \<open>The probe loop\<close>

text \<open>
  How one pass through the body of \<open>for { ... }\<close> in \<open>mainLoop\<close> ends: at
  \<open>continue\<close> or the end of the body (\<open>Continue\<close>), at a \<open>return\<close> of the
  goroutine (\<open>Exit\<close>), or not at all within the passes given to image cleanup
  (\<open>Hung\<close>).
\<close>

datatype ctl = Continue | Exit | Hung

definition dockerHost_of :: "environ \<Rightarrow> string" where
  "dockerHost_of env =
     (if DOCKER_HOST env = '''' then ''unix:///var/run/docker.sock'' else DOCKER_HOST env)"

text \<open>
  \<open>GetMetricWithLabelValues()\<close> on a counter vector declared with no labels has no
  error to return, so the \<open>panic\<close> branches are not branches of the model.
\<close>

text \<open>What the loop does after a failed pull or push, before \<open>continue\<close>.\<close>

definition transactionFailed :: "'w state \<Rightarrow> 'w state" where
  "transactionFailed s =
     s\<lparr> duration := 30 * time_Second, promFailureMetric := promFailureMetric s + 1 \<rparr>"

text \<open>
  The head of the loop body: the sleep (every pass but the first), then
  \<open>firstLoop = false\<close> and \<open>status = true\<close>.
\<close>

definition startTest :: "'w state \<Rightarrow> 'w state" where
  "startTest s =
     (if \<not> firstLoop s then s\<lparr> trace := trace s @ [Slept (duration s)] \<rparr> else s)
       \<lparr> firstLoop := False, status := True \<rparr>"

text \<open>The end of a body that ran through: both latencies are observed by then.\<close>

definition testSuccessful :: "'w state \<Rightarrow> 'w state" where
  "testSuccessful s =
     s\<lparr> promPushMetric := promPushMetric s + 1,
        duration := 2 * time_Minute,
        promSuccessMetric := promSuccessMetric s + 1 \<rparr>"

definition pullObserved :: "'w state \<Rightarrow> 'w state" where
  "pullObserved s = s\<lparr> promPullMetric := promPullMetric s + 1 \<rparr>"

definition iteration :: "'w docker \<Rightarrow> environ \<Rightarrow> nat \<Rightarrow> 'w state \<Rightarrow> ctl \<times> 'w state" where
  "iteration d env fuel s =
     (case newDockerClient d env (dockerHost_of env) (startTest s) of
        (False, s2) \<Rightarrow> (Exit, s2\<lparr> healthy := False \<rparr>)
      | (True, s2) \<Rightarrow>
     (case (if \<not> underDocker env then clearAllContainers d s2 else (True, s2)) of
        (False, s3) \<Rightarrow> (Exit, s3)
      | (True, s3) \<Rightarrow>
     (case clearAllImages d env fuel s3 of
        (None, skipImages, s4) \<Rightarrow> (Hung, s4)
      | (Some False, skipImages, s4) \<Rightarrow> (Exit, s4)
      | (Some True, skipImages, s4) \<Rightarrow>
     (case pullTestImage d s4 of
        (False, s5) \<Rightarrow> (Continue, transactionFailed s5)
      | (True, s5) \<Rightarrow>
     (case deleteTopLayer d (pullObserved s5) of
        (False, s6) \<Rightarrow> (Exit, s6)
      | (True, s6) \<Rightarrow>
     (case createTagLayer d s6 of
        (False, s7) \<Rightarrow> (Exit, s7)
      | (True, s7) \<Rightarrow>
     (case pushTestImage d s7 of
        (False, s8) \<Rightarrow> (Continue, transactionFailed s8)
      | (True, s8) \<Rightarrow> (Continue, testSuccessful s8))))))))"

text \<open>
  The loop itself never ends by design; \<open>mainLoop d env fuel n\<close> runs at most \<open>n\<close>
  passes of its body. \<open>Continue\<close>: the loop is about to start the next pass;
  \<open>Exit\<close>: the goroutine has returned and no pass follows.
\<close>

fun mainLoop :: "'w docker \<Rightarrow> environ \<Rightarrow> nat \<Rightarrow> nat \<Rightarrow> 'w state \<Rightarrow> ctl \<times> 'w state" where
  "mainLoop d env fuel 0 s = (Continue, s)"
| "mainLoop d env fuel (Suc n) s =
     (case iteration d env fuel s of
        (Continue, s') \<Rightarrow> mainLoop d env fuel n s'
      | (Exit, s') \<Rightarrow> (Exit, s')
      | (Hung, s') \<Rightarrow> (Hung, s'))"

text \<open>The events a run added to the trace it started with.\<close>

definition since :: "'w state \<Rightarrow> 'w state \<Rightarrow> event list" where
  "since s s' = drop (length (trace s)) (trace s')"

subsection \<open>A scripted runtime\<close>

text \<open>
  A runtime to run the monitor against. Its world is the list of image identifiers it
  holds. Removing an image in \<open>stuck\<close>, or one it does not hold, fails and leaves the
  world as it is; removing any other image succeeds and takes it off the list. There are no containers, the pull
  answers as \<open>pullOk\<close> says, the history of the repository is \<open>hist\<close>, and every
  other call succeeds.
\<close>

definition refused :: error where
  "refused = Error ''refused''"

definition scripted :: "string list \<Rightarrow> bool \<Rightarrow> ImageHistory list \<Rightarrow> (string list) docker" where
  "scripted stuck pullOk hist =
     \<lparr> url_Parse = (\<lambda>h w. (None, w)),
       docker_NewClient = (\<lambda>w. (None, w)),
       buildTLSTransport = (\<lambda>p w. (None, w)),
       client_Ping = (\<lambda>w. (None, w)),
       client_ListContainers = (\<lambda>w. (Inr [], w)),
       client_RemoveContainer = (\<lambda>i w. (None, w)),
       client_ListImages = (\<lambda>w. (Inr (map (\<lambda>i. \<lparr> image_ID = i \<rparr>) w), w)),
       client_RemoveImage =
         (\<lambda>i w. if i \<in> set stuck \<or> i \<notin> set w then (Some refused, w)
                else (None, removeAll i w)),
       client_PullImage = (\<lambda>w. if pullOk then (None, w) else (Some refused, w)),
       client_ImageHistory = (\<lambda>w. (Inr hist, w)),
       client_CreateContainer = (\<lambda>w. (None, w)),
       client_CommitContainer = (\<lambda>w. (None, w)),
       client_PushImage = (\<lambda>w. (None, w)) \<rparr>"

text \<open>The environment with nothing set, and the one of the constrained mode.\<close>

definition plainEnv :: environ where
  "plainEnv = \<lparr> DOCKER_HOST = [], DOCKER_CERT_PATH = [], UNDER_DOCKER = [] \<rparr>"

definition constrainedEnv :: environ where
  "constrainedEnv = \<lparr> DOCKER_HOST = [], DOCKER_CERT_PATH = [], UNDER_DOCKER = ''True'' \<rparr>"

subsection \<open>Relations between the state before and after a step\<close>

text \<open>
  \<open>quiet s s'\<close>: from \<open>s\<close> to \<open>s'\<close> the flag \<open>status\<close> kept its value and no
  pull or push failed. \<open>passing s s'\<close>: \<open>status\<close> is set in \<open>s'\<close> and no pull or
  push failed since \<open>s\<close>.
\<close>

definition quiet :: "'w state \<Rightarrow> 'w state \<Rightarrow> bool" where
  "quiet s s' \<longleftrightarrow>
     status s' = status s \<and>
     (\<exists>evs. trace s' = trace s @ evs \<and>
        Called PullImage False \<notin> set evs \<and> Called PushImage False \<notin> set evs)"

definition passing :: "'w state \<Rightarrow> 'w state \<Rightarrow> bool" where
  "passing s s' \<longleftrightarrow>
     status s' \<and>
     (\<exists>evs. trace s' = trace s @ evs \<and>
        Called PullImage False \<notin> set evs \<and> Called PushImage False \<notin> set evs)"

text \<open>
  For the removals of image cleanup: no removal failed among the events; and what a run
  of cleanup answers after the removal of \<open>i\<close> failed, in either mode.
\<close>

definition no_failed_removal :: "event list \<Rightarrow> bool" where
  "no_failed_removal evs \<longleftrightarrow> (\<forall>i. Called (RemoveImage i) False \<notin> set evs)"

definition cleanup_verdict ::
  "environ \<Rightarrow> 'w state \<Rightarrow> bool option \<Rightarrow> (string \<rightharpoonup> bool) \<Rightarrow> 'w state \<Rightarrow> string \<Rightarrow> bool" where
  "cleanup_verdict env s r sk' s' i \<longleftrightarrow>
     (if underDocker env then r = Some True \<and> healthy s' = healthy s \<and> sk' i = Some True
      else r = Some False \<and> \<not> healthy s')"

section \<open>Properties\<close>

subsection \<open>The environments\<close>


lemma underDocker_constrainedEnv: "underDocker constrainedEnv"
  by (simp add: underDocker_def constrainedEnv_def strings_ToLower_def toLower_char_def)

lemma not_underDocker_plainEnv: "\<not> underDocker plainEnv"
  by (simp add: underDocker_def plainEnv_def strings_ToLower_def toLower_char_def)

lemma healthy_called [simp]: "healthy (called a ok w s) = healthy s"
  by (simp add: called_def)

lemma status_called [simp]: "status (called a ok w s) = status s"
  by (simp add: called_def)

lemma world_called [simp]: "world (called a ok w s) = w"
  by (simp add: called_def)

lemma trace_called [simp]: "trace (called a ok w s) = trace s @ [Called a ok]"
  by (simp add: called_def)

lemma newDockerClient_healthy: "healthy (snd (newDockerClient d env h s)) = healthy s"
  by (simp add: newDockerClient_def Let_def split: prod.splits option.splits)

lemma verifyDockerClient_healthy: "healthy (snd (verifyDockerClient d s)) \<Longrightarrow> healthy s"
  by (simp add: verifyDockerClient_def split: prod.splits option.splits)

lemma removeContainers_unhealthy:
  "\<not> healthy s \<Longrightarrow> \<not> healthy (snd (removeContainers d cs s))"
  by (induction cs arbitrary: s) (simp_all split: prod.split option.split)

lemma clearAllContainers_unhealthy:
  "\<not> healthy s \<Longrightarrow> \<not> healthy (snd (clearAllContainers d s))"
  by (simp add: clearAllContainers_def removeContainers_unhealthy split: prod.split sum.split)

lemma removeImages_unhealthy:
  "\<not> healthy s \<Longrightarrow> \<not> healthy (snd (snd (removeImages d env imgs r sk s)))"
  by (induction imgs arbitrary: r sk s) (simp_all split: prod.split option.split)

lemma clearAllImages_loop_unhealthy:
  "\<not> healthy s \<Longrightarrow> \<not> healthy (snd (snd (clearAllImages_loop d env n sk s)))"
proof (induction n arbitrary: sk s)
  case 0
  then show ?case by simp
next
  case (Suc n)
  show ?case
  proof (cases "client_ListImages d (world s)")
    case (Pair r w)
    show ?thesis
    proof (cases r)
      case (Inl e)
      with Pair show ?thesis by simp
    next
      case (Inr images)
      let ?s1 = "called ListImages True w s"
      obtain b sk' s2 where rm: "removeImages d env (take 1 images) False sk ?s1 = (b, sk', s2)"
        by (cases "removeImages d env (take 1 images) False sk ?s1")
      have "\<not> healthy ?s1" using Suc.prems by simp
      from removeImages_unhealthy [OF this, of d env "take 1 images" False sk] rm
      have "\<not> healthy s2" by simp
      with Suc.IH [OF this] Suc.prems Pair Inr rm show ?thesis
        by (simp add: Let_def split: sum.split)
    qed
  qed
qed

lemma clearAllImages_unhealthy:
  "\<not> healthy s \<Longrightarrow> \<not> healthy (snd (snd (clearAllImages d env n s)))"
  by (simp add: clearAllImages_def clearAllImages_loop_unhealthy)

lemma pullTestImage_healthy: "healthy (snd (pullTestImage d s)) = healthy s"
  by (simp add: pullTestImage_def split: prod.split option.split)

lemma pushTestImage_healthy: "healthy (snd (pushTestImage d s)) = healthy s"
  by (simp add: pushTestImage_def split: prod.split option.split)

lemma deleteLatest_unhealthy:
  "\<not> healthy s \<Longrightarrow> \<not> healthy (snd (deleteLatest d hist s))"
  by (induction hist arbitrary: s) (simp_all add: Let_def split: prod.split option.split)

lemma deleteTopLayer_unhealthy:
  "\<not> healthy s \<Longrightarrow> \<not> healthy (snd (deleteTopLayer d s))"
  by (simp add: deleteTopLayer_def deleteLatest_unhealthy split: prod.split sum.split)

lemma createTagLayer_unhealthy:
  "\<not> healthy s \<Longrightarrow> \<not> healthy (snd (createTagLayer d s))"
  by (simp add: createTagLayer_def Let_def split: prod.split option.split)

lemma healthy_transactionFailed [simp]: "healthy (transactionFailed s) = healthy s"
  by (simp add: transactionFailed_def)

lemma iteration_cases [case_names connect containers hung images pull delete create push success]:
  assumes "\<And>s2. newDockerClient d env (dockerHost_of env) (startTest s) = (False, s2) \<Longrightarrow>
             iteration d env fuel s = (Exit, s2\<lparr> healthy := False \<rparr>) \<Longrightarrow> Q"
    and "\<And>s2 s3. newDockerClient d env (dockerHost_of env) (startTest s) = (True, s2) \<Longrightarrow>
             \<not> underDocker env \<Longrightarrow> clearAllContainers d s2 = (False, s3) \<Longrightarrow>
             iteration d env fuel s = (Exit, s3) \<Longrightarrow> Q"
    and "\<And>s2 s3 sk s4. newDockerClient d env (dockerHost_of env) (startTest s) = (True, s2) \<Longrightarrow>
             (if \<not> underDocker env then clearAllContainers d s2 else (True, s2)) = (True, s3) \<Longrightarrow>
             clearAllImages d env fuel s3 = (None, sk, s4) \<Longrightarrow>
             iteration d env fuel s = (Hung, s4) \<Longrightarrow> Q"
    and "\<And>s2 s3 sk s4. newDockerClient d env (dockerHost_of env) (startTest s) = (True, s2) \<Longrightarrow>
             (if \<not> underDocker env then clearAllContainers d s2 else (True, s2)) = (True, s3) \<Longrightarrow>
             clearAllImages d env fuel s3 = (Some False, sk, s4) \<Longrightarrow>
             iteration d env fuel s = (Exit, s4) \<Longrightarrow> Q"
    and "\<And>s2 s3 sk s4 s5. newDockerClient d env (dockerHost_of env) (startTest s) = (True, s2) \<Longrightarrow>
             (if \<not> underDocker env then clearAllContainers d s2 else (True, s2)) = (True, s3) \<Longrightarrow>
             clearAllImages d env fuel s3 = (Some True, sk, s4) \<Longrightarrow>
             pullTestImage d s4 = (False, s5) \<Longrightarrow>
             iteration d env fuel s = (Continue, transactionFailed s5) \<Longrightarrow> Q"
    and "\<And>s2 s3 sk s4 s5 s6. newDockerClient d env (dockerHost_of env) (startTest s) = (True, s2) \<Longrightarrow>
             (if \<not> underDocker env then clearAllContainers d s2 else (True, s2)) = (True, s3) \<Longrightarrow>
             clearAllImages d env fuel s3 = (Some True, sk, s4) \<Longrightarrow>
             pullTestImage d s4 = (True, s5) \<Longrightarrow>
             deleteTopLayer d (pullObserved s5) = (False, s6) \<Longrightarrow>
             iteration d env fuel s = (Exit, s6) \<Longrightarrow> Q"
    and "\<And>s2 s3 sk s4 s5 s6 s7. newDockerClient d env (dockerHost_of env) (startTest s) = (True, s2) \<Longrightarrow>
             (if \<not> underDocker env then clearAllContainers d s2 else (True, s2)) = (True, s3) \<Longrightarrow>
             clearAllImages d env fuel s3 = (Some True, sk, s4) \<Longrightarrow>
             pullTestImage d s4 = (True, s5) \<Longrightarrow>
             deleteTopLayer d (pullObserved s5) = (True, s6) \<Longrightarrow>
             createTagLayer d s6 = (False, s7) \<Longrightarrow>
             iteration d env fuel s = (Exit, s7) \<Longrightarrow> Q"
    and "\<And>s2 s3 sk s4 s5 s6 s7 s8. newDockerClient d env (dockerHost_of env) (startTest s) = (True, s2) \<Longrightarrow>
             (if \<not> underDocker env then clearAllContainers d s2 else (True, s2)) = (True, s3) \<Longrightarrow>
             clearAllImages d env fuel s3 = (Some True, sk, s4) \<Longrightarrow>
             pullTestImage d s4 = (True, s5) \<Longrightarrow>
             deleteTopLayer d (pullObserved s5) = (True, s6) \<Longrightarrow>
             createTagLayer d s6 = (True, s7) \<Longrightarrow>
             pushTestImage d s7 = (False, s8) \<Longrightarrow>
             iteration d env fuel s = (Continue, transactionFailed s8) \<Longrightarrow> Q"
    and "\<And>s2 s3 sk s4 s5 s6 s7 s8. newDockerClient d env (dockerHost_of env) (startTest s) = (True, s2) \<Longrightarrow>
             (if \<not> underDocker env then clearAllContainers d s2 else (True, s2)) = (True, s3) \<Longrightarrow>
             clearAllImages d env fuel s3 = (Some True, sk, s4) \<Longrightarrow>
             pullTestImage d s4 = (True, s5) \<Longrightarrow>
             deleteTopLayer d (pullObserved s5) = (True, s6) \<Longrightarrow>
             createTagLayer d s6 = (True, s7) \<Longrightarrow>
             pushTestImage d s7 = (True, s8) \<Longrightarrow>
             iteration d env fuel s = (Continue, testSuccessful s8) \<Longrightarrow> Q"
  shows Q
proof -
  obtain b2 s2 where c2: "newDockerClient d env (dockerHost_of env) (startTest s) = (b2, s2)"
    by (cases "newDockerClient d env (dockerHost_of env) (startTest s)")
  obtain b3 s3 where c3: "(if \<not> underDocker env then clearAllContainers d s2 else (True, s2)) = (b3, s3)"
    by (cases "if \<not> underDocker env then clearAllContainers d s2 else (True, s2)")
  obtain b4 sk s4 where c4: "clearAllImages d env fuel s3 = (b4, sk, s4)"
    by (cases "clearAllImages d env fuel s3")
  obtain b5 s5 where c5: "pullTestImage d s4 = (b5, s5)"
    by (cases "pullTestImage d s4")
  obtain b6 s6 where c6: "deleteTopLayer d (pullObserved s5) = (b6, s6)"
    by (cases "deleteTopLayer d (pullObserved s5)")
  obtain b7 s7 where c7: "createTagLayer d s6 = (b7, s7)"
    by (cases "createTagLayer d s6")
  obtain b8 s8 where c8: "pushTestImage d s7 = (b8, s8)"
    by (cases "pushTestImage d s7")
  note defs = iteration_def c2 c3 c4 c5 c6 c7 c8
  show Q
  proof (cases b2)
    case False
    then show Q using assms(1) [of s2] by (simp add: defs)
  next
    case t2: True
    show Q
    proof (cases b3)
      case False
      then have "\<not> underDocker env" "clearAllContainers d s2 = (False, s3)"
        using c3 by (auto split: if_splits)
      then show Q using assms(2) [of s2 s3] t2 False by (simp add: defs)
    next
      case t3: True
      show Q
      proof (cases b4)
        case None
        then show Q using assms(3) [of s2 s3 sk s4] t2 t3 by (simp add: defs)
      next
        case (Some r4)
        show Q
        proof (cases r4)
          case False
          then show Q using assms(4) [of s2 s3 sk s4] t2 t3 Some by (simp add: defs)
        next
          case t4: True
          show Q
          proof (cases b5)
            case False
            then show Q using assms(5) [of s2 s3 sk s4 s5] t2 t3 Some t4 by (simp add: defs)
          next
            case t5: True
            show Q
            proof (cases b6)
              case False
              then show Q using assms(6) [of s2 s3 sk s4 s5 s6] t2 t3 Some t4 t5
                by (simp add: defs)
            next
              case t6: True
              show Q
              proof (cases b7)
                case False
                then show Q using assms(7) [of s2 s3 sk s4 s5 s6 s7] t2 t3 Some t4 t5 t6
                  by (simp add: defs)
              next
                case t7: True
                show Q
                proof (cases b8)
                  case False
                  then show Q using assms(8) [of s2 s3 sk s4 s5 s6 s7 s8] t2 t3 Some t4 t5 t6 t7
                    by (simp add: defs)
                next
                  case True
                  then show Q using assms(9) [of s2 s3 sk s4 s5 s6 s7 s8] t2 t3 Some t4 t5 t6 t7
                    by (simp add: defs)
                qed
              qed
            qed
          qed
        qed
      qed
    qed
  qed
qed

lemma healthy_startTest [simp]: "healthy (startTest s) = healthy s"
  by (simp add: startTest_def)

lemma healthy_pullObserved [simp]: "healthy (pullObserved s) = healthy s"
  by (simp add: pullObserved_def)

lemma healthy_testSuccessful [simp]: "healthy (testSuccessful s) = healthy s"
  by (simp add: testSuccessful_def)

lemma iteration_unhealthy:
  assumes "\<not> healthy s"
  shows "\<not> healthy (snd (iteration d env fuel s))"
proof (cases rule: iteration_cases [of d env s fuel])
  case (connect s2)
  then show ?thesis by simp
next
  case (containers s2 s3)
  with assms newDockerClient_healthy [of d env "dockerHost_of env" "startTest s"]
    clearAllContainers_unhealthy [of s2 d]
  show ?thesis by simp
next
  case (hung s2 s3 sk s4)
  have "\<not> healthy s2"
    using assms newDockerClient_healthy [of d env "dockerHost_of env" "startTest s"] hung(1) by simp
  then have "\<not> healthy s3"
    using clearAllContainers_unhealthy [of s2 d] hung(2) by (auto split: if_splits)
  then show ?thesis
    using clearAllImages_unhealthy [of s3 d env fuel] hung by simp
next
  case (images s2 s3 sk s4)
  have "\<not> healthy s2"
    using assms newDockerClient_healthy [of d env "dockerHost_of env" "startTest s"] images(1) by simp
  then have "\<not> healthy s3"
    using clearAllContainers_unhealthy [of s2 d] images(2) by (auto split: if_splits)
  then show ?thesis
    using clearAllImages_unhealthy [of s3 d env fuel] images by simp
next
  case (pull s2 s3 sk s4 s5)
  have "\<not> healthy s2"
    using assms newDockerClient_healthy [of d env "dockerHost_of env" "startTest s"] pull(1) by simp
  then have "\<not> healthy s3"
    using clearAllContainers_unhealthy [of s2 d] pull(2) by (auto split: if_splits)
  then have "\<not> healthy s4"
    using clearAllImages_unhealthy [of s3 d env fuel] pull by simp
  then show ?thesis
    using pullTestImage_healthy [of d s4] pull by simp
next
  case (delete s2 s3 sk s4 s5 s6)
  have "\<not> healthy s2"
    using assms newDockerClient_healthy [of d env "dockerHost_of env" "startTest s"] delete(1) by simp
  then have "\<not> healthy s3"
    using clearAllContainers_unhealthy [of s2 d] delete(2) by (auto split: if_splits)
  then have "\<not> healthy s4"
    using clearAllImages_unhealthy [of s3 d env fuel] delete by simp
  then have "\<not> healthy s5"
    using pullTestImage_healthy [of d s4] delete by simp
  then show ?thesis
    using deleteTopLayer_unhealthy [of "pullObserved s5" d] delete by simp
next
  case (create s2 s3 sk s4 s5 s6 s7)
  have "\<not> healthy s2"
    using assms newDockerClient_healthy [of d env "dockerHost_of env" "startTest s"] create(1) by simp
  then have "\<not> healthy s3"
    using clearAllContainers_unhealthy [of s2 d] create(2) by (auto split: if_splits)
  then have "\<not> healthy s4"
    using clearAllImages_unhealthy [of s3 d env fuel] create by simp
  then have "\<not> healthy s5"
    using pullTestImage_healthy [of d s4] create by simp
  then have "\<not> healthy s6"
    using deleteTopLayer_unhealthy [of "pullObserved s5" d] create by simp
  then show ?thesis
    using createTagLayer_unhealthy [of s6 d] create by simp
next
  case (push s2 s3 sk s4 s5 s6 s7 s8)
  have "\<not> healthy s2"
    using assms newDockerClient_healthy [of d env "dockerHost_of env" "startTest s"] push(1) by simp
  then have "\<not> healthy s3"
    using clearAllContainers_unhealthy [of s2 d] push(2) by (auto split: if_splits)
  then have "\<not> healthy s4"
    using clearAllImages_unhealthy [of s3 d env fuel] push by simp
  then have "\<not> healthy s5"
    using pullTestImage_healthy [of d s4] push by simp
  then have "\<not> healthy s6"
    using deleteTopLayer_unhealthy [of "pullObserved s5" d] push by simp
  then have "\<not> healthy s7"
    using createTagLayer_unhealthy [of s6 d] push by simp
  then show ?thesis
    using pushTestImage_healthy [of d s7] push by simp
next
  case (success s2 s3 sk s4 s5 s6 s7 s8)
  have "\<not> healthy s2"
    using assms newDockerClient_healthy [of d env "dockerHost_of env" "startTest s"] success(1) by simp
  then have "\<not> healthy s3"
    using clearAllContainers_unhealthy [of s2 d] success(2) by (auto split: if_splits)
  then have "\<not> healthy s4"
    using clearAllImages_unhealthy [of s3 d env fuel] success by simp
  then have "\<not> healthy s5"
    using pullTestImage_healthy [of d s4] success by simp
  then have "\<not> healthy s6"
    using deleteTopLayer_unhealthy [of "pullObserved s5" d] success by simp
  then have "\<not> healthy s7"
    using createTagLayer_unhealthy [of s6 d] success by simp
  then show ?thesis
    using pushTestImage_healthy [of d s7] success by simp
qed

lemma quiet_refl [simp]: "quiet s s"
  by (simp add: quiet_def)

lemma quiet_trans: "quiet s s1 \<Longrightarrow> quiet s1 s2 \<Longrightarrow> quiet s s2"
  unfolding quiet_def by force

lemma quiet_called:
  "a \<noteq> PullImage \<Longrightarrow> a \<noteq> PushImage \<Longrightarrow> quiet s s1 \<Longrightarrow> quiet s (called a ok w s1)"
  unfolding quiet_def by force

lemma quiet_unhealthy: "quiet s s1 \<Longrightarrow> quiet s (s1\<lparr> healthy := False \<rparr>)"
  unfolding quiet_def by simp

lemma newDockerClient_quiet: "quiet s (snd (newDockerClient d env h s))"
  by (simp add: newDockerClient_def Let_def quiet_called split: prod.split option.split)

lemma removeContainers_quiet: "quiet s0 s \<Longrightarrow> quiet s0 (snd (removeContainers d cs s))"
  by (induction cs arbitrary: s)
     (simp_all add: quiet_called quiet_unhealthy split: prod.split option.split)

lemma clearAllContainers_quiet: "quiet s (snd (clearAllContainers d s))"
  by (simp add: clearAllContainers_def removeContainers_quiet quiet_called quiet_unhealthy
           split: prod.split sum.split)

lemma removeImages_quiet:
  "quiet s0 s \<Longrightarrow> quiet s0 (snd (snd (removeImages d env imgs r sk s)))"
  by (induction imgs arbitrary: r sk s)
     (simp_all add: quiet_called quiet_unhealthy split: prod.split option.split)

lemma clearAllImages_loop_quiet:
  "quiet s0 s \<Longrightarrow> quiet s0 (snd (snd (clearAllImages_loop d env n sk s)))"
proof (induction n arbitrary: sk s)
  case 0
  then show ?case by simp
next
  case (Suc n)
  obtain r w where ls: "client_ListImages d (world s) = (r, w)"
    by (cases "client_ListImages d (world s)")
  show ?case
  proof (cases r)
    case (Inl e)
    with ls Suc.prems show ?thesis by (simp add: quiet_called quiet_unhealthy)
  next
    case (Inr images)
    let ?s1 = "called ListImages True w s"
    obtain b sk' s2 where rm: "removeImages d env (take 1 images) False sk ?s1 = (b, sk', s2)"
      by (cases "removeImages d env (take 1 images) False sk ?s1")
    have q1: "quiet s0 ?s1" using Suc.prems by (simp add: quiet_called)
    from removeImages_quiet [OF this, of d env "take 1 images" False sk] rm
    have q2: "quiet s0 s2" by simp
    from Suc.IH [OF q2] q1 q2 ls Inr rm show ?thesis
      by (simp add: Let_def split: sum.split)
  qed
qed

lemma clearAllImages_quiet: "quiet s (snd (snd (clearAllImages d env n s)))"
  by (simp add: clearAllImages_def clearAllImages_loop_quiet)

lemma deleteLatest_quiet: "quiet s0 s \<Longrightarrow> quiet s0 (snd (deleteLatest d hist s))"
  by (induction hist arbitrary: s)
     (simp_all add: Let_def quiet_called quiet_unhealthy split: prod.split option.split)

lemma deleteTopLayer_quiet: "quiet s (snd (deleteTopLayer d s))"
  by (simp add: deleteTopLayer_def deleteLatest_quiet quiet_called quiet_unhealthy
           split: prod.split sum.split)

lemma createTagLayer_quiet: "quiet s (snd (createTagLayer d s))"
  by (simp add: createTagLayer_def Let_def quiet_called quiet_unhealthy
           split: prod.split option.split)

text \<open>The two transactional steps: one event each, and the flag follows the answer.\<close>

lemma pullTestImage_trace:
  "trace (snd (pullTestImage d s)) = trace s @ [Called PullImage (fst (pullTestImage d s))]"
  by (simp add: pullTestImage_def split: prod.split option.split)

lemma pullTestImage_status:
  "status (snd (pullTestImage d s)) = (fst (pullTestImage d s) \<and> status s)"
  by (simp add: pullTestImage_def split: prod.split option.split)

lemma pushTestImage_trace:
  "trace (snd (pushTestImage d s)) = trace s @ [Called PushImage (fst (pushTestImage d s))]"
  by (simp add: pushTestImage_def split: prod.split option.split)

lemma pushTestImage_status:
  "status (snd (pushTestImage d s)) = fst (pushTestImage d s)"
  by (simp add: pushTestImage_def split: prod.split option.split)

lemma passing_startTest: "passing s (startTest s)"
  by (simp add: passing_def startTest_def)

lemma passing_quiet: "passing s s1 \<Longrightarrow> quiet s1 s2 \<Longrightarrow> passing s s2"
  unfolding passing_def quiet_def by force

lemma passing_since:
  "passing s s' \<Longrightarrow>
     status s' \<and> Called PullImage False \<notin> set (since s s') \<and> Called PushImage False \<notin> set (since s s')"
  unfolding passing_def since_def by force

lemma passing_cong:
  "passing s s1 \<Longrightarrow> status s2 = status s1 \<Longrightarrow> trace s2 = trace s1 \<Longrightarrow> passing s s2"
  unfolding passing_def by simp

lemma passing_pull:
  "passing s s4 \<Longrightarrow> pullTestImage d s4 = (True, s5) \<Longrightarrow> passing s s5"
  using pullTestImage_trace [of d s4] pullTestImage_status [of d s4]
  unfolding passing_def by force

lemma failing_pull:
  "passing s s4 \<Longrightarrow> pullTestImage d s4 = (False, s5) \<Longrightarrow>
     \<not> status s5 \<and> Called PullImage False \<in> set (since s s5)"
  using pullTestImage_trace [of d s4] pullTestImage_status [of d s4]
  unfolding passing_def since_def by force

lemma passing_push:
  "passing s s7 \<Longrightarrow> pushTestImage d s7 = (True, s8) \<Longrightarrow> passing s s8"
  using pushTestImage_trace [of d s7] pushTestImage_status [of d s7]
  unfolding passing_def by force

lemma failing_push:
  "passing s s7 \<Longrightarrow> pushTestImage d s7 = (False, s8) \<Longrightarrow>
     \<not> status s8 \<and> Called PushImage False \<in> set (since s s8)"
  using pushTestImage_trace [of d s7] pushTestImage_status [of d s7]
  unfolding passing_def since_def by force

lemma since_transactionFailed [simp]: "since s (transactionFailed s') = since s s'"
  by (simp add: since_def transactionFailed_def)

lemma status_transactionFailed [simp]: "status (transactionFailed s) = status s"
  by (simp add: transactionFailed_def)

lemma passing_connected:
  "newDockerClient d env h (startTest s) = (b, s2) \<Longrightarrow> passing s s2"
  using passing_quiet [OF passing_startTest newDockerClient_quiet [of "startTest s" d env h]]
  by simp

lemma passing_containers:
  "passing s s2 \<Longrightarrow> (if \<not> underDocker env then clearAllContainers d s2 else (True, s2)) = (b, s3)
     \<Longrightarrow> passing s s3"
  using passing_quiet [OF _ clearAllContainers_quiet [of s2 d]]
  by (auto split: if_splits)

lemma passing_images:
  "passing s s3 \<Longrightarrow> clearAllImages d env fuel s3 = (b, sk, s4) \<Longrightarrow> passing s s4"
  using passing_quiet [OF _ clearAllImages_quiet [of s3 d env fuel]] by simp

lemma passing_delete:
  "passing s s5 \<Longrightarrow> deleteTopLayer d (pullObserved s5) = (b, s6) \<Longrightarrow> passing s s6"
  using passing_quiet [OF _ deleteTopLayer_quiet [of "pullObserved s5" d], of s]
  by (simp add: passing_def pullObserved_def)

lemma passing_create:
  "passing s s6 \<Longrightarrow> createTagLayer d s6 = (b, s7) \<Longrightarrow> passing s s7"
  using passing_quiet [OF _ createTagLayer_quiet [of s6 d]] by simp

subsection \<open>The probe loop keeps the health flag down\<close>


lemma mainLoop_unhealthy:
  "\<not> healthy s \<Longrightarrow> \<not> healthy (snd (mainLoop d env fuel n s))"
proof (induction n arbitrary: s)
  case 0
  then show ?case by simp
next
  case (Suc n)
  obtain c s' where it: "iteration d env fuel s = (c, s')"
    by (cases "iteration d env fuel s")
  have "\<not> healthy s'" using iteration_unhealthy [OF Suc.prems, of d env fuel] it by simp
  from Suc.IH [OF this] this it show ?case by (cases c) simp_all
qed


subsection \<open>One pass of image cleanup\<close>


lemma removeImages_first_cases [consumes 1, case_names none removed fatal skipped]:
  assumes "removeImages d env (take 1 images) False sk s = (b, sk', s')"
    and "b = Inr False \<Longrightarrow> sk' = sk \<Longrightarrow> s' = s \<Longrightarrow> Q"
    and "\<And>i w. client_RemoveImage d i (world s) = (None, w) \<Longrightarrow> b = Inr True \<Longrightarrow> sk' = sk \<Longrightarrow>
           s' = called (RemoveImage i) True w s \<Longrightarrow> Q"
    and "\<And>i w. \<not> underDocker env \<Longrightarrow> b = Inl False \<Longrightarrow> sk' = sk \<Longrightarrow>
           s' = (called (RemoveImage i) False w s)\<lparr> healthy := False \<rparr> \<Longrightarrow> Q"
    and "\<And>i w. underDocker env \<Longrightarrow> b = Inr False \<Longrightarrow> sk' = sk(i \<mapsto> True) \<Longrightarrow>
           s' = called (RemoveImage i) False w s \<Longrightarrow> Q"
  shows Q
proof (cases images)
  case Nil
  with assms(1) assms(2) show Q by simp
next
  case (Cons img rest)
  obtain e w where rm: "client_RemoveImage d (image_ID img) (world s) = (e, w)"
    by (cases "client_RemoveImage d (image_ID img) (world s)")
  show Q
  proof (cases "sk (image_ID img) \<noteq> None")
    case True
    with assms(1) Cons assms(2) show Q by auto
  next
    case False
    show Q
    proof (cases e)
      case None
      with assms(1) Cons False rm assms(3) [of "image_ID img" w] show Q by auto
    next
      case (Some x)
      show Q
      proof (cases "underDocker env")
        case True
        with assms(1) Cons False rm Some assms(5) [of "image_ID img" w] show Q by auto
      next
        case nu: False
        with assms(1) Cons False rm Some assms(4) [of "image_ID img" w] show Q by auto
      qed
    qed
  qed
qed

lemma clearAllImages_pass_cases [case_names listing empty idle removed fatal skipped]:
  assumes "\<And>e w. client_ListImages d (world s) = (Inl e, w) \<Longrightarrow>
             clearAllImages_loop d env (Suc n) sk s =
               (Some False, sk, (called ListImages False w s)\<lparr> healthy := False \<rparr>) \<Longrightarrow> Q"
    and "\<And>images w. client_ListImages d (world s) = (Inr images, w) \<Longrightarrow>
             clearAllImages_loop d env (Suc n) sk s =
               (Some (healthy s), sk, called ListImages True w s) \<Longrightarrow> Q"
    and "\<And>images w. client_ListImages d (world s) = (Inr images, w) \<Longrightarrow>
             clearAllImages_loop d env (Suc n) sk s =
               (Some True, sk, called ListImages True w s) \<Longrightarrow> Q"
    and "\<And>images w i w'. client_ListImages d (world s) = (Inr images, w) \<Longrightarrow>
             client_RemoveImage d i w = (None, w') \<Longrightarrow>
             clearAllImages_loop d env (Suc n) sk s =
               clearAllImages_loop d env n sk
                 (called (RemoveImage i) True w' (called ListImages True w s)) \<Longrightarrow> Q"
    and "\<And>images w i w'. client_ListImages d (world s) = (Inr images, w) \<Longrightarrow>
             \<not> underDocker env \<Longrightarrow>
             clearAllImages_loop d env (Suc n) sk s =
               (Some False, sk,
                (called (RemoveImage i) False w' (called ListImages True w s))
                  \<lparr> healthy := False \<rparr>) \<Longrightarrow> Q"
    and "\<And>images w i w'. client_ListImages d (world s) = (Inr images, w) \<Longrightarrow>
             underDocker env \<Longrightarrow>
             clearAllImages_loop d env (Suc n) sk s =
               (Some True, sk(i \<mapsto> True),
                called (RemoveImage i) False w' (called ListImages True w s)) \<Longrightarrow> Q"
  shows Q
proof -
  obtain r w where ls: "client_ListImages d (world s) = (r, w)"
    by (cases "client_ListImages d (world s)")
  show Q
  proof (cases r)
    case (Inl e)
    with ls assms(1) [of e w] show Q by simp
  next
    case (Inr images)
    let ?s1 = "called ListImages True w s"
    show Q
    proof (cases "list_ex (\<lambda>img. sk (image_ID img) = None) images")
      case False
      with ls Inr assms(2) [of images w] show Q by (simp add: Let_def)
    next
      case True
      obtain b sk' s2 where rm: "removeImages d env (take 1 images) False sk ?s1 = (b, sk', s2)"
        by (cases "removeImages d env (take 1 images) False sk ?s1")
      from rm show Q
      proof (cases rule: removeImages_first_cases)
        case none
        with ls Inr True rm assms(3) [of images w] show Q by (simp add: Let_def)
      next
        case (removed i w')
        with ls Inr True rm assms(4) [of images w i w'] show Q by (simp add: Let_def)
      next
        case (fatal i w')
        with ls Inr True rm assms(5) [of images w i w'] show Q by (simp add: Let_def)
      next
        case (skipped i w')
        with ls Inr True rm assms(6) [of images w i w'] show Q by (simp add: Let_def)
      qed
    qed
  qed
qed

lemma removeImages_first_removed:
  assumes rem: "\<And>i w w'. client_RemoveImage d i w = (None, w') \<Longrightarrow> m w' < m w"
    and run: "removeImages d env (take 1 images) False sk s = (Inr True, sk', s2)"
  shows "m (world s2) < m (world s)"
proof (cases images)
  case Nil
  with run show ?thesis by simp
next
  case (Cons i rest)
  obtain e w where rm: "client_RemoveImage d (image_ID i) (world s) = (e, w)"
    by (cases "client_RemoveImage d (image_ID i) (world s)")
  show ?thesis
  proof (cases e)
    case None
    with run Cons rm have "world s2 = w" by (auto split: if_splits)
    with rem [of "image_ID i" "world s" w] rm None show ?thesis by simp
  next
    case (Some x)
    with run Cons rm show ?thesis by (auto split: if_splits)
  qed
qed

lemma clearAllImages_loop_returns:
  assumes list: "\<And>w r w'. client_ListImages d w = (r, w') \<Longrightarrow> m w' \<le> m w"
    and rem: "\<And>i w w'. client_RemoveImage d i w = (None, w') \<Longrightarrow> m w' < m w"
  shows "m (world s) < n \<Longrightarrow> fst (clearAllImages_loop d env n sk s) \<noteq> None"
proof (induction n arbitrary: sk s)
  case 0
  then show ?case by simp
next
  case (Suc n)
  obtain r w where ls: "client_ListImages d (world s) = (r, w)"
    by (cases "client_ListImages d (world s)")
  show ?case
  proof (cases r)
    case (Inl e)
    with ls show ?thesis by simp
  next
    case (Inr images)
    let ?s1 = "called ListImages True w s"
    obtain b sk' s2 where rm: "removeImages d env (take 1 images) False sk ?s1 = (b, sk', s2)"
      by (cases "removeImages d env (take 1 images) False sk ?s1")
    have m1: "m (world ?s1) \<le> m (world s)" using list [OF ls] by simp
    show ?thesis
    proof (cases b)
      case (Inl x)
      with ls Inr rm show ?thesis by (auto simp: Let_def)
    next
      case r: (Inr removed)
      show ?thesis
      proof (cases removed)
        case False
        with ls Inr rm r show ?thesis by (auto simp: Let_def)
      next
        case True
        with rm r have "m (world s2) < m (world ?s1)"
          using removeImages_first_removed [of d m env images sk ?s1 sk' s2] rem by simp
        with m1 Suc.prems have "m (world s2) < n" by simp
        from Suc.IH [OF this, of sk'] ls Inr rm r True show ?thesis
          by (auto simp: Let_def)
      qed
    qed
  qed
qed


lemma clearAllImages_loop_events:
  "clearAllImages_loop d env n sk s = (r, sk', s') \<Longrightarrow>
     \<exists>evs. trace s' = trace s @ evs \<and>
       (no_failed_removal evs \<or>
        (\<exists>pre i. evs = pre @ [Called (RemoveImage i) False] \<and> no_failed_removal pre \<and>
                 cleanup_verdict env s r sk' s' i))"
proof (induction n arbitrary: sk s)
  case 0
  then show ?case by (simp add: no_failed_removal_def)
next
  case (Suc n)
  show ?case
  proof (cases rule: clearAllImages_pass_cases [of d s env n sk])
    case (listing e w)
    with Suc.prems have "trace s' = trace s @ [Called ListImages False]" by auto
    then show ?thesis by (simp add: no_failed_removal_def)
  next
    case (empty images w)
    with Suc.prems have "trace s' = trace s @ [Called ListImages True]" by auto
    then show ?thesis by (simp add: no_failed_removal_def)
  next
    case (idle images w)
    with Suc.prems have "trace s' = trace s @ [Called ListImages True]" by auto
    then show ?thesis by (simp add: no_failed_removal_def)
  next
    case (removed images w i w')
    let ?s2 = "called (RemoveImage i) True w' (called ListImages True w s)"
    from removed(3) Suc.prems have "clearAllImages_loop d env n sk ?s2 = (r, sk', s')" by simp
    from Suc.IH [OF this] obtain evs where
      tr: "trace s' = trace ?s2 @ evs" and
      ev: "no_failed_removal evs \<or>
           (\<exists>pre j. evs = pre @ [Called (RemoveImage j) False] \<and> no_failed_removal pre \<and>
                    cleanup_verdict env ?s2 r sk' s' j)"
      by blast
    let ?head = "[Called ListImages True, Called (RemoveImage i) True]"
    have tr': "trace s' = trace s @ (?head @ evs)" using tr by simp
    from ev show ?thesis
    proof
      assume "no_failed_removal evs"
      then have "no_failed_removal (?head @ evs)" by (simp add: no_failed_removal_def)
      with tr' show ?thesis by blast
    next
      assume "\<exists>pre j. evs = pre @ [Called (RemoveImage j) False] \<and> no_failed_removal pre \<and>
                    cleanup_verdict env ?s2 r sk' s' j"
      then obtain pre j where e: "evs = pre @ [Called (RemoveImage j) False]"
        and p: "no_failed_removal pre" and v: "cleanup_verdict env ?s2 r sk' s' j"
        by blast
      have "?head @ evs = (?head @ pre) @ [Called (RemoveImage j) False]" using e by simp
      moreover have "no_failed_removal (?head @ pre)" using p by (simp add: no_failed_removal_def)
      moreover have "cleanup_verdict env s r sk' s' j" using v by (simp add: cleanup_verdict_def)
      ultimately show ?thesis using tr' by blast
    qed
  next
    case (fatal images w i w')
    with Suc.prems have tr: "trace s' = trace s @ ([Called ListImages True] @ [Called (RemoveImage i) False])"
      and v: "cleanup_verdict env s r sk' s' i"
      by (auto simp: cleanup_verdict_def)
    have "no_failed_removal [Called ListImages True]" by (simp add: no_failed_removal_def)
    with tr v show ?thesis by blast
  next
    case (skipped images w i w')
    with Suc.prems have tr: "trace s' = trace s @ ([Called ListImages True] @ [Called (RemoveImage i) False])"
      and v: "cleanup_verdict env s r sk' s' i"
      by (auto simp: cleanup_verdict_def)
    have "no_failed_removal [Called ListImages True]" by (simp add: no_failed_removal_def)
    with tr v show ?thesis by blast
  qed
qed


lemma clearAllImages_pass_goes_on:
  assumes "fst (clearAllImages_loop d env (Suc 0) sk s) = None"
  shows "\<exists>i. Called (RemoveImage i) True \<in>
               set (since s (snd (snd (clearAllImages_loop d env (Suc 0) sk s))))"
proof (cases rule: clearAllImages_pass_cases [of d s env 0 sk])
  case (listing e w)
  with assms show ?thesis by simp
next
  case (empty images w)
  with assms show ?thesis by simp
next
  case (idle images w)
  with assms show ?thesis by simp
next
  case (removed images w i w')
  then have "since s (snd (snd (clearAllImages_loop d env (Suc 0) sk s))) =
               [Called ListImages True, Called (RemoveImage i) True]"
    by (simp add: since_def)
  then show ?thesis by simp
next
  case (fatal images w i w')
  with assms show ?thesis by simp
next
  case (skipped images w i w')
  with assms show ?thesis by simp
qed

subsection \<open>The end of the loop and the delete step\<close>

text \<open>Once the goroutine has returned, more passes change nothing.\<close>

lemma mainLoop_Exit_final:
  "fst (mainLoop d env fuel n s) = Exit \<Longrightarrow>
     mainLoop d env fuel (n + k) s = mainLoop d env fuel n s"
proof (induction n arbitrary: s)
  case 0
  then show ?case by simp
next
  case (Suc n)
  obtain c s' where it: "iteration d env fuel s = (c, s')"
    by (cases "iteration d env fuel s")
  show ?case
  proof (cases c)
    case Continue
    with it Suc.prems have "fst (mainLoop d env fuel n s') = Exit" by simp
    from Suc.IH [OF this] it Continue show ?thesis by simp
  next
    case Exit
    with it show ?thesis by simp
  next
    case Hung
    with it show ?thesis by simp
  qed
qed


text \<open>
  In \<open>deleteTopLayer\<close> a failed removal is fatal; with no entry tagged \<open>latest\<close>
  the loop over the history calls nothing and answers \<open>healthy\<close>.
\<close>

lemma deleteLatest_removal_error:
  "Called (RemoveImage i) False \<in> set (since s (snd (deleteLatest d hist s))) \<Longrightarrow>
     fst (deleteLatest d hist s) = False \<and> \<not> healthy (snd (deleteLatest d hist s))"
proof (induction hist)
  case Nil
  then show ?case by (simp add: since_def)
next
  case (Cons img rest)
  show ?case
  proof (cases "stringInSlice ''latest'' (history_Tags img)")
    case False
    with Cons show ?thesis by simp
  next
    case True
    obtain e w where rm: "client_RemoveImage d (history_ID img) (world s) = (e, w)"
      by (cases "client_RemoveImage d (history_ID img) (world s)")
    show ?thesis
    proof (cases e)
      case None
      with Cons.prems True rm show ?thesis by (simp add: Let_def since_def)
    next
      case (Some x)
      with True rm show ?thesis by simp
    qed
  qed
qed

lemma deleteTopLayer_removal_error:
  assumes "Called (RemoveImage i) False \<in> set (since s (snd (deleteTopLayer d s)))"
  shows "fst (deleteTopLayer d s) = False \<and> \<not> healthy (snd (deleteTopLayer d s))"
proof -
  obtain r w where h: "client_ImageHistory d (world s) = (r, w)"
    by (cases "client_ImageHistory d (world s)")
  show ?thesis
  proof (cases r)
    case (Inl e)
    with h show ?thesis by (simp add: deleteTopLayer_def)
  next
    case (Inr hist)
    let ?s1 = "called GetImageHistory True w s"
    have "\<exists>evs. trace (snd (deleteLatest d hist ?s1)) = trace ?s1 @ evs"
      using deleteLatest_quiet [of ?s1 ?s1 d hist] by (auto simp: quiet_def)
    then obtain evs where e: "trace (snd (deleteLatest d hist ?s1)) = trace ?s1 @ evs" by blast
    then have "since s (snd (deleteLatest d hist ?s1)) =
                 Called GetImageHistory True # since ?s1 (snd (deleteLatest d hist ?s1))"
      by (simp add: since_def)
    with assms h Inr
    have "Called (RemoveImage i) False \<in> set (since ?s1 (snd (deleteLatest d hist ?s1)))"
      by (simp add: deleteTopLayer_def)
    from deleteLatest_removal_error [OF this] h Inr show ?thesis
      by (simp add: deleteTopLayer_def)
  qed
qed

lemma deleteLatest_no_latest:
  "\<forall>img \<in> set hist. \<not> stringInSlice ''latest'' (history_Tags img) \<Longrightarrow>
     deleteLatest d hist s = (healthy s, s)"
  by (induction hist) simp_all

section \<open>The claims\<close>

subsection \<open>Process start and the health flag\<close>

text \<open>
  Claim C1. The claim says that both flags are true at process start, before the first
  pass of the probe loop. The declarations have no initialiser and nothing runs before
  the loop that writes them: at process start both flags are false.
\<close>

theorem flags_at_process_start:
  "healthy (initial w) = False \<and> status (initial w) = False"
  by (simp add: initial_def)

text \<open>
  Claim C2. No statement assigns true to \<open>healthy\<close>: whatever the runtime answers,
  however the environment is set and however many passes the loop has made (or wherever
  it stopped, or hangs in image cleanup), \<open>healthy\<close> is false and the health
  handler answers 503 with the body \<open>false\<close>.
\<close>

theorem healthy_never_true:
  "\<not> healthy (snd (mainLoop d env fuel n (initial w))) \<and>
   healthHandler (snd (mainLoop d env fuel n (initial w))) = (503, ''false'')"
proof -
  have "\<not> healthy (initial w)" by (simp add: initial_def)
  from mainLoop_unhealthy [OF this, of d env fuel n] show ?thesis
    by (simp add: healthHandler_def)
qed

subsection \<open>The status flag\<close>

text \<open>
  Claim C4. In every pass of the probe loop \<open>status\<close> is set to true at the start, and
  at the end of the pass (or wherever the pass stops) it is false if and only if the pull
  or the push of this pass failed; no other step clears it. The value \<open>status\<close> had
  before the pass plays no part.
\<close>

theorem status_iff_no_transaction_failure:
  "status (startTest s) \<and>
   status (snd (iteration d env fuel s)) =
     (Called PullImage False \<notin> set (since s (snd (iteration d env fuel s))) \<and>
      Called PushImage False \<notin> set (since s (snd (iteration d env fuel s))))"
proof -
  have st: "status (startTest s)" by (simp add: startTest_def)
  have "status (snd (iteration d env fuel s)) =
     (Called PullImage False \<notin> set (since s (snd (iteration d env fuel s))) \<and>
      Called PushImage False \<notin> set (since s (snd (iteration d env fuel s))))"
  proof (cases rule: iteration_cases [of d env s fuel])
    case (connect s2)
    from passing_connected [OF connect(1)] have "passing s (s2\<lparr> healthy := False \<rparr>)"
      by (rule passing_cong) simp_all
    from passing_since [OF this] connect(2) show ?thesis by simp
  next
    case (containers s2 s3)
    from passing_connected [OF containers(1)] containers(2,3) have "passing s s3"
      using passing_containers [of s s2 env d False s3] by simp
    from passing_since [OF this] containers(4) show ?thesis by simp
  next
    case (hung s2 s3 sk s4)
    note passing_images [OF passing_containers [OF passing_connected [OF hung(1)] hung(2)] hung(3)]
    from passing_since [OF this] hung(4) show ?thesis by simp
  next
    case (images s2 s3 sk s4)
    note passing_images [OF passing_containers [OF passing_connected [OF images(1)] images(2)] images(3)]
    from passing_since [OF this] images(4) show ?thesis by simp
  next
    case (pull s2 s3 sk s4 s5)
    note passing_images [OF passing_containers [OF passing_connected [OF pull(1)] pull(2)] pull(3)]
    from failing_pull [OF this pull(4)] pull(5) show ?thesis by simp
  next
    case (delete s2 s3 sk s4 s5 s6)
    note passing_images [OF passing_containers [OF passing_connected [OF delete(1)] delete(2)] delete(3)]
    note passing_delete [OF passing_pull [OF this delete(4)] delete(5)]
    from passing_since [OF this] delete(6) show ?thesis by simp
  next
    case (create s2 s3 sk s4 s5 s6 s7)
    note passing_images [OF passing_containers [OF passing_connected [OF create(1)] create(2)] create(3)]
    note passing_delete [OF passing_pull [OF this create(4)] create(5)]
    note passing_create [OF this create(6)]
    from passing_since [OF this] create(7) show ?thesis by simp
  next
    case (push s2 s3 sk s4 s5 s6 s7 s8)
    note passing_images [OF passing_containers [OF passing_connected [OF push(1)] push(2)] push(3)]
    note passing_delete [OF passing_pull [OF this push(4)] push(5)]
    note passing_create [OF this push(6)]
    from failing_push [OF this push(7)] push(8) show ?thesis by simp
  next
    case (success s2 s3 sk s4 s5 s6 s7 s8)
    note passing_images [OF passing_containers [OF passing_connected [OF success(1)] success(2)] success(3)]
    note passing_delete [OF passing_pull [OF this success(4)] success(5)]
    note passing_create [OF this success(6)]
    note passing_push [OF this success(7)]
    then have "passing s (testSuccessful s8)"
      by (rule passing_cong) (simp_all add: testSuccessful_def)
    from passing_since [OF this] success(8) show ?thesis by simp
  qed
  with st show ?thesis by simp
qed

subsection \<open>Passes of the probe loop from process start\<close>

text \<open>
  Claim C3. The claim says \<open>healthy\<close> stays true until a fatal step fails and that only
  such a failure ends the loop. Against a runtime with no containers and no images where
  every call succeeds, outside the constrained mode, the loop is given three passes: it
  makes one, in which no call fails, and returns after container cleanup, with
  \<open>healthy\<close> false as it has been since process start. Container cleanup answers
  \<open>healthy\<close>, which nothing has set.
\<close>

theorem loop_exits_with_no_failure:
  "mainLoop (scripted [] True []) plainEnv 1 3 (initial []) =
     (Exit, \<lparr> healthy = False, status = True,
              promSuccessMetric = 0, promFailureMetric = 0,
              promPullMetric = 0, promPushMetric = 0,
              firstLoop = False, duration = 2 * time_Minute,
              trace = [Called UrlParse True, Called NewClient True, Called ListContainers True],
              world = [] \<rparr>)"
  by code_simp

text \<open>
  Claim C5. In the constrained mode, with one image that cannot be removed and a pull
  that fails, the first pass ends as the claim says in all but one point: \<open>status\<close> is
  false, the failure counter is 1, the next sleep is 30 seconds and no call of the later
  steps was made, but \<open>healthy\<close> is false, not true.
\<close>

theorem pull_failure_pass:
  "iteration (scripted [''a''] False []) constrainedEnv 1 (initial [''a'']) =
     (Continue, \<lparr> healthy = False, status = False,
                  promSuccessMetric = 0, promFailureMetric = 1,
                  promPullMetric = 0, promPushMetric = 0,
                  firstLoop = False, duration = 30 * time_Second,
                  trace = [Called UrlParse True, Called NewClient True, Called ListImages True,
                           Called (RemoveImage ''a'') False, Called PullImage False],
                  world = [''a''] \<rparr>)"
  by code_simp

text \<open>
  Claim C6. Against a runtime where every call succeeds, no pass ends as the claim says:
  outside the constrained mode the pass returns after container cleanup, inside it
  returns after image cleanup, each answering \<open>healthy\<close>, which is false. Nothing is
  pulled or pushed, no latency is observed and the success counter stays 0.
\<close>

theorem all_steps_succeed_pass:
  "fst (iteration (scripted [] True []) plainEnv 1 (initial [])) = Exit \<and>
   promSuccessMetric (snd (iteration (scripted [] True []) plainEnv 1 (initial []))) = 0 \<and>
   promPullMetric (snd (iteration (scripted [] True []) plainEnv 1 (initial []))) = 0 \<and>
   promPushMetric (snd (iteration (scripted [] True []) plainEnv 1 (initial []))) = 0 \<and>
   healthy (snd (iteration (scripted [] True []) plainEnv 1 (initial []))) = False \<and>
   trace (snd (iteration (scripted [] True []) plainEnv 1 (initial []))) =
     [Called UrlParse True, Called NewClient True, Called ListContainers True] \<and>
   fst (iteration (scripted [] True []) constrainedEnv 1 (initial [])) = Exit \<and>
   promSuccessMetric (snd (iteration (scripted [] True []) constrainedEnv 1 (initial []))) = 0 \<and>
   healthy (snd (iteration (scripted [] True []) constrainedEnv 1 (initial []))) = False \<and>
   trace (snd (iteration (scripted [] True []) constrainedEnv 1 (initial []))) =
     [Called UrlParse True, Called NewClient True, Called ListImages True]"
  by code_simp

text \<open>
  Claim C7. With a history that has no entry tagged \<open>latest\<close> the step removes nothing
  and answers \<open>healthy\<close>. From process start that is false: the step reports failure
  and the pass returns without creating the new top layer, though no call failed in the
  step.
\<close>

theorem delete_top_layer_without_latest:
  "deleteTopLayer (scripted [''a''] True [\<lparr> history_ID = ''h1'', history_Tags = [''v1''] \<rparr>])
     (initial [''a'']) =
     (False, called GetImageHistory True [''a''] (initial [''a''])) \<and>
   fst (iteration (scripted [''a''] True [\<lparr> history_ID = ''h1'', history_Tags = [''v1''] \<rparr>])
          constrainedEnv 1 (initial [''a''])) = Exit \<and>
   trace (snd (iteration (scripted [''a''] True [\<lparr> history_ID = ''h1'', history_Tags = [''v1''] \<rparr>])
          constrainedEnv 1 (initial [''a'']))) =
     [Called UrlParse True, Called NewClient True, Called ListImages True,
      Called (RemoveImage ''a'') False, Called PullImage True, Called GetImageHistory True]"
  by code_simp

subsection \<open>Image cleanup\<close>

text \<open>
  Claim C8. In the constrained mode, with images \<open>a\<close> and \<open>b\<close> listed in this order
  and \<open>a\<close> not removable, cleanup answers true after one pass: the removal of \<open>a\<close>
  fails, \<open>a\<close> goes into the skip set and the loop ends. The image \<open>b\<close> is still
  listed, is not in the skip set, and its removal would succeed.
\<close>

theorem cleanup_leaves_removable_image:
  "fst (clearAllImages (scripted [''a''] True []) constrainedEnv 5 (initial [''a'', ''b''])) = Some True \<and>
   fst (snd (clearAllImages (scripted [''a''] True []) constrainedEnv 5 (initial [''a'', ''b'']))) ''b'' = None \<and>
   fst (client_ListImages (scripted [''a''] True [])
          (world (snd (snd (clearAllImages (scripted [''a''] True []) constrainedEnv 5
                              (initial [''a'', ''b''])))))) =
     Inr [\<lparr> image_ID = ''a'' \<rparr>, \<lparr> image_ID = ''b'' \<rparr>] \<and>
   fst (client_RemoveImage (scripted [''a''] True []) ''b''
          (world (snd (snd (clearAllImages (scripted [''a''] True []) constrainedEnv 5
                              (initial [''a'', ''b''])))))) = None \<and>
   since (initial [''a'', ''b''])
     (snd (snd (clearAllImages (scripted [''a''] True []) constrainedEnv 5 (initial [''a'', ''b''])))) =
     [Called ListImages True, Called (RemoveImage ''a'') False]"
  by code_simp

text \<open>
  Claim C9. Image cleanup returns after finitely many passes. The runtime is the
  parameter: listing images does not add to a measure \<open>m\<close> of its world and a removal
  that succeeds takes from it (the number of images it holds, for one); removals that
  fail are free to do anything. Then from every state, in either mode, cleanup returns
  within \<open>m + 1\<close> passes. And for every runtime, a pass after which the loop goes on
  has removed an image: a pass that removes nothing is the last.
\<close>

theorem clearAllImages_terminates:
  assumes "\<And>w r w'. client_ListImages d w = (r, w') \<Longrightarrow> m w' \<le> m w"
    and "\<And>i w w'. client_RemoveImage d i w = (None, w') \<Longrightarrow> m w' < m w"
    and "m (world s) < fuel"
  shows "fst (clearAllImages d env fuel s) \<noteq> None \<and>
         (fst (clearAllImages_loop d' env' (Suc 0) sk s') = None \<longrightarrow>
            (\<exists>i. Called (RemoveImage i) True \<in>
               set (since s' (snd (snd (clearAllImages_loop d' env' (Suc 0) sk s'))))))"
  unfolding clearAllImages_def
  using clearAllImages_loop_returns [of d m s fuel env Map.empty] assms
    clearAllImages_pass_goes_on [of d' env' sk s']
  by blast

theorem clearAllImages_terminates_witness:
  "fst (clearAllImages (scripted [''a''] True []) constrainedEnv 3 (initial [''b'', ''a''])) = Some True \<and>
   fst (clearAllImages_loop (scripted [''a''] True []) constrainedEnv (Suc 0) Map.empty
          (initial [''b'', ''a''])) = None \<and>
   (\<exists>i. Called (RemoveImage i) True \<in>
      set (since (initial [''b'', ''a''])
            (snd (snd (clearAllImages_loop (scripted [''a''] True []) constrainedEnv (Suc 0)
                         Map.empty (initial [''b'', ''a'']))))))"
proof -
  have t: "fst (clearAllImages (scripted [''a''] True []) constrainedEnv 3 (initial [''b'', ''a''])) \<noteq> None \<and>
     (fst (clearAllImages_loop (scripted [''a''] True []) constrainedEnv (Suc 0) Map.empty
          (initial [''b'', ''a''])) = None \<longrightarrow>
      (\<exists>i. Called (RemoveImage i) True \<in>
        set (since (initial [''b'', ''a''])
            (snd (snd (clearAllImages_loop (scripted [''a''] True []) constrainedEnv (Suc 0)
                         Map.empty (initial [''b'', ''a''])))))))"
  proof (rule clearAllImages_terminates [where m = length])
    show "\<And>w r w'. client_ListImages (scripted [''a''] True []) w = (r, w') \<Longrightarrow> length w' \<le> length w"
      by (simp add: scripted_def)
    show "\<And>i w w'. client_RemoveImage (scripted [''a''] True []) i w = (None, w') \<Longrightarrow> length w' < length w"
      by (auto simp: scripted_def length_removeAll_less split: if_splits)
    show "length (world (initial [''b'', ''a''])) < 3"
      by (simp add: initial_def)
  qed
  have v: "fst (clearAllImages (scripted [''a''] True []) constrainedEnv 3 (initial [''b'', ''a''])) \<noteq> Some False"
    by code_simp
  have n: "fst (clearAllImages_loop (scripted [''a''] True []) constrainedEnv (Suc 0) Map.empty
          (initial [''b'', ''a''])) = None"
    by code_simp
  from t v n show ?thesis by auto
qed

text \<open>
  Claim C10, as amended. When the removal of an image fails during image cleanup in the
  constrained mode, the failure is not fatal: cleanup answers true (the loop goes on to
  the pull), \<open>healthy\<close> is not written, the image is put in the skip set, and the failed
  removal is the last call of this run of cleanup and the only failed one, so the image
  is not tried again in this run. Outside the constrained mode the same failure is
  fatal: cleanup answers false and \<open>healthy\<close> is false. The skip set is a local of
  \<open>clearAllImages\<close>, made anew by every run: nothing is said about later passes of
  the probe loop.
\<close>

theorem removal_failure_in_cleanup:
  assumes run: "clearAllImages d env fuel s = (r, skipImages, s')"
    and failed: "Called (RemoveImage i) False \<in> set (since s s')"
  shows "(underDocker env \<longrightarrow>
            r = Some True \<and> healthy s' = healthy s \<and> skipImages i = Some True \<and>
            last (since s s') = Called (RemoveImage i) False \<and>
            count_list (since s s') (Called (RemoveImage i) False) = 1) \<and>
         (\<not> underDocker env \<longrightarrow> r = Some False \<and> \<not> healthy s')"
proof -
  from clearAllImages_loop_events [OF run [unfolded clearAllImages_def]] obtain evs where
    tr: "trace s' = trace s @ evs" and
    ev: "no_failed_removal evs \<or>
         (\<exists>pre j. evs = pre @ [Called (RemoveImage j) False] \<and> no_failed_removal pre \<and>
                  cleanup_verdict env s r skipImages s' j)"
    by blast
  have sn: "since s s' = evs" using tr by (simp add: since_def)
  with failed have "\<not> no_failed_removal evs" by (auto simp: no_failed_removal_def)
  with ev obtain pre j where e: "evs = pre @ [Called (RemoveImage j) False]"
    and p: "no_failed_removal pre" and v: "cleanup_verdict env s r skipImages s' j"
    by blast
  from failed sn e p have ij: "j = i" by (auto simp: no_failed_removal_def)
  from p have "count_list pre (Called (RemoveImage i) False) = 0"
    by (simp add: no_failed_removal_def)
  with e ij have "count_list evs (Called (RemoveImage i) False) = 1" by simp
  moreover have "last evs = Called (RemoveImage i) False" using e ij by simp
  ultimately show ?thesis using v ij sn by (simp add: cleanup_verdict_def)
qed

theorem removal_failure_in_cleanup_witness:
  "(fst (clearAllImages (scripted [''a''] True []) constrainedEnv 1 (initial [''a''])) = Some True \<and>
    \<not> healthy (snd (snd (clearAllImages (scripted [''a''] True []) constrainedEnv 1 (initial [''a''])))) \<and>
    fst (snd (clearAllImages (scripted [''a''] True []) constrainedEnv 1 (initial [''a'']))) ''a'' = Some True \<and>
    since (initial [''a''])
      (snd (snd (clearAllImages (scripted [''a''] True []) constrainedEnv 1 (initial [''a''])))) =
      [Called ListImages True, Called (RemoveImage ''a'') False]) \<and>
   (fst (clearAllImages (scripted [''a''] True []) plainEnv 1 (initial [''a''])) = Some False \<and>
    \<not> healthy (snd (snd (clearAllImages (scripted [''a''] True []) plainEnv 1 (initial [''a''])))))"
proof -
  let ?c = "clearAllImages (scripted [''a''] True []) constrainedEnv 1 (initial [''a''])"
  let ?p = "clearAllImages (scripted [''a''] True []) plainEnv 1 (initial [''a''])"
  have c1: "?c = (fst ?c, fst (snd ?c), snd (snd ?c))" by simp
  have c2: "Called (RemoveImage ''a'') False \<in> set (since (initial [''a'']) (snd (snd ?c)))"
    by code_simp
  have c3: "since (initial [''a'']) (snd (snd ?c)) =
      [Called ListImages True, Called (RemoveImage ''a'') False]"
    by code_simp
  have p1: "?p = (fst ?p, fst (snd ?p), snd (snd ?p))" by simp
  have p2: "Called (RemoveImage ''a'') False \<in> set (since (initial [''a'']) (snd (snd ?p)))"
    by code_simp
  have h0: "\<not> healthy (initial [''a''] :: string list state)" by (simp add: initial_def)
  from removal_failure_in_cleanup [OF c1 c2] underDocker_constrainedEnv
       removal_failure_in_cleanup [OF p1 p2] not_underDocker_plainEnv h0 c3
  show ?thesis by simp
qed

text \<open>
  Claim C10 as stated says the failed image is left alone for the rest of the process.
  In the constrained mode, with an image whose removal always fails and a pull that
  fails, the second pass of the probe loop tries to remove the same image again.
\<close>

theorem skip_set_not_kept_counterexample:
  "underDocker constrainedEnv \<and>
   trace (snd (mainLoop (scripted [''a''] False []) constrainedEnv 1 2 (initial [''a'']))) =
     [Called UrlParse True, Called NewClient True,
      Called ListImages True, Called (RemoveImage ''a'') False, Called PullImage False,
      Slept (30 * time_Second),
      Called UrlParse True, Called NewClient True,
      Called ListImages True, Called (RemoveImage ''a'') False, Called PullImage False]"
  by code_simp

end
